theory Spec2Isabelle
  imports Complex_Main
begin

section \<open>Configuration constants of \<^verbatim>\<open>slidesnap_final.py\<close>\<close>

text \<open>
  The constants are the decimal literals of the source. Thresholds and scores are only
  compared with each other, and are modelled as the exact reals they denote. Where a float
  is truncated to an integer (the derived frame counts) or handed to the caller (the
  progress percentage), the rounding of each double-precision operation is modelled, see
  \<open>dbl\<close> below.
\<close>

definition SSIM_THRESHOLD :: real where
  "SSIM_THRESHOLD = 0.85"

definition BLUR_THRESHOLD :: real where
  "BLUR_THRESHOLD = 50"

definition MIN_STABLE_SECONDS :: real where
  "MIN_STABLE_SECONDS = 0.8"

definition FRAME_SKIP :: int where
  "FRAME_SKIP = 2"

definition HIST_THRESHOLD :: real where
  "HIST_THRESHOLD = 0.25"

definition COOLDOWN_SECONDS :: real where
  "COOLDOWN_SECONDS = 0.3"

section \<open>Python and numpy helpers\<close>

text \<open>Python's \<^verbatim>\<open>int(x)\<close> on a float truncates toward zero.\<close>

definition py_int :: "real \<Rightarrow> int" where
  "py_int x = (if x < 0 then \<lceil>x\<rceil> else \<lfloor>x\<rfloor>)"

text \<open>
  A grayscale frame is a two-dimensional array of pixel values: a list of rows.
  \<^verbatim>\<open>shape\<close> is (height, width); \<^verbatim>\<open>a[lo:hi]\<close> with non-negative bounds keeps the
  elements at positions \<open>lo \<le> i < hi\<close> that exist.
\<close>

type_synonym gray = "nat list list"

definition shape :: "gray \<Rightarrow> int \<times> int" where
  "shape g = (int (length g), (case g of [] \<Rightarrow> 0 | r # _ \<Rightarrow> int (length r)))"

definition py_slice :: "int \<Rightarrow> int \<Rightarrow> 'a list \<Rightarrow> 'a list" where
  "py_slice lo hi xs = take (nat (hi - lo)) (drop (nat lo) xs)"

section \<open>Double-precision arithmetic\<close>

text \<open>
  \<open>dbl x\<close> is the binary64 number nearest to \<open>x\<close>, ties going to the even significand:
  53 significant bits and an unbounded exponent, so it is the IEEE result wherever that
  result is a normal number (\<open>expo a\<close> is the binary exponent of \<open>a > 0\<close>, the \<open>e\<close> with
  \<open>2 ^ e \<le> a < 2 ^ (e + 1)\<close>, found by halving or doubling). A float literal denotes
  \<open>dbl\<close> of its decimal value, and an arithmetic operation on floats is the exact operation
  followed by \<open>dbl\<close>. Python's \<^verbatim>\<open>int / int\<close> is the correctly rounded quotient, hence
  \<open>fl_div\<close> as well.
\<close>

definition nearest_even :: "int \<Rightarrow> real \<Rightarrow> int" where
  "nearest_even f x =
     (if x - real_of_int f < 1 / 2 then f
      else if 1 / 2 < x - real_of_int f then f + 1
      else if even f then f else f + 1)"

definition round_half_even :: "real \<Rightarrow> int" where
  "round_half_even x = nearest_even \<lfloor>x\<rfloor> x"

definition pow2 :: "int \<Rightarrow> real" where
  "pow2 k = (if 0 \<le> k then 2 ^ nat k else 1 / 2 ^ nat (- k))"

function halvings :: "real \<Rightarrow> int" where
  "halvings x = (if 2 \<le> x then halvings (x / 2) + 1 else 0)"
  by pat_completeness auto
termination
proof (relation "measure (\<lambda>x. nat \<lceil>x\<rceil>)")
  show "wf (measure (\<lambda>x::real. nat \<lceil>x\<rceil>))" by simp
next
  fix x :: real assume "2 \<le> x"
  then have "x / 2 \<le> x - 1" by simp
  then have "\<lceil>x / 2\<rceil> \<le> \<lceil>x - 1\<rceil>" by (rule ceiling_mono)
  moreover have "0 < \<lceil>x\<rceil>" using \<open>2 \<le> x\<close> by linarith
  ultimately show "(x / 2, x) \<in> measure (\<lambda>x. nat \<lceil>x\<rceil>)" by simp
qed

function doublings :: "real \<Rightarrow> int" where
  "doublings x = (if 0 < x \<and> x < 1 then doublings (x * 2) + 1 else 0)"
  by pat_completeness auto
termination
proof (relation "measure (\<lambda>x. nat \<lceil>1 / x\<rceil>)")
  show "wf (measure (\<lambda>x::real. nat \<lceil>1 / x\<rceil>))" by simp
next
  fix x :: real assume a: "0 < x \<and> x < 1"
  then have y: "1 < 1 / x" by simp
  have half: "1 / (x * 2) = 1 / x / 2" by simp
  have "\<lceil>1 / x / 2\<rceil> < \<lceil>1 / x\<rceil>"
  proof (cases "2 \<le> 1 / x")
    case True
    then have "1 / x / 2 \<le> 1 / x - 1" by simp
    then have "\<lceil>1 / x / 2\<rceil> \<le> \<lceil>1 / x - 1\<rceil>" by (rule ceiling_mono)
    then show ?thesis by simp
  next
    case False
    with y have "1 / x / 2 \<le> 1" by simp
    then have "\<lceil>1 / x / 2\<rceil> \<le> 1" by (simp only: ceiling_le_one)
    moreover from y have "2 \<le> \<lceil>1 / x\<rceil>" by linarith
    ultimately show ?thesis by linarith
  qed
  then have "\<lceil>1 / (x * 2)\<rceil> < \<lceil>1 / x\<rceil>" by (simp only: half)
  moreover from y have "0 < \<lceil>1 / x\<rceil>" by linarith
  ultimately show "(x * 2, x) \<in> measure (\<lambda>x. nat \<lceil>1 / x\<rceil>)" by simp
qed

declare halvings.simps [simp del] doublings.simps [simp del]

definition expo :: "real \<Rightarrow> int" where
  "expo x = (if 1 \<le> x then halvings x else - doublings x)"

definition round_to_unit :: "int \<Rightarrow> real \<Rightarrow> real" where
  "round_to_unit k a = real_of_int (round_half_even (a / pow2 k)) * pow2 k"

definition dbl :: "real \<Rightarrow> real" where
  "dbl x = (if x = 0 then 0 else sgn x * round_to_unit (expo \<bar>x\<bar> - 52) \<bar>x\<bar>)"

definition fl_mul :: "real \<Rightarrow> real \<Rightarrow> real" where
  "fl_mul x y = dbl (x * y)"

definition fl_div :: "real \<Rightarrow> real \<Rightarrow> real" where
  "fl_div x y = dbl (x / y)"

section \<open>The image primitives consumed from OpenCV and scikit-image\<close>

text \<open>
  The numeric primitives are library code, not code of this program; they are taken as
  parameters. \<open>'f\<close> is the type of a decoded colour frame.
  \<^item> \<open>cv_cvtColor\<close>: \<^verbatim>\<open>cv2.cvtColor(frame, cv2.COLOR_BGR2GRAY)\<close>;
  \<^item> \<open>cv_resize\<close>: \<^verbatim>\<open>cv2.resize(img, (320, 240))\<close>, which is defined on a non-empty
    image and raises on an empty one: the parameter is total, so the model describes
    runs on frames whose slide region is not empty (at least two pixels high and wide);
  \<^item> \<open>cv_Laplacian_var\<close>: \<^verbatim>\<open>cv2.Laplacian(img, cv2.CV_64F).var()\<close>;
  \<^item> \<open>cv_calcHist\<close>: \<^verbatim>\<open>cv2.calcHist([img], [0], None, [64], [0, 256])\<close>;
  \<^item> \<open>cv_normalize\<close>: \<^verbatim>\<open>cv2.normalize(h, h)\<close>;
  \<^item> \<open>cv_compareHist\<close>: \<^verbatim>\<open>cv2.compareHist(a, b, cv2.HISTCMP_BHATTACHARYYA)\<close>;
  \<^item> \<open>sk_ssim\<close>: the score of \<^verbatim>\<open>structural_similarity(a, b, full=True)\<close>.
\<close>

record 'f cv =
  cv_cvtColor :: "'f \<Rightarrow> gray"
  cv_resize :: "gray \<Rightarrow> gray"
  cv_Laplacian_var :: "gray \<Rightarrow> real"
  cv_calcHist :: "gray \<Rightarrow> real list"
  cv_normalize :: "real list \<Rightarrow> real list"
  cv_compareHist :: "real list \<Rightarrow> real list \<Rightarrow> real"
  sk_ssim :: "gray \<Rightarrow> gray \<Rightarrow> real"

section \<open>Region extraction, change detection, blur detection\<close>

definition get_slide_region :: "gray \<Rightarrow> gray" where
  "get_slide_region frame_gray =
     (let (h, w) = shape frame_gray;
          top = py_int (real_of_int h * 0.05);
          bottom = py_int (real_of_int h * 0.85);
          left = py_int (real_of_int w * 0.05);
          right = py_int (real_of_int w * 0.95)
      in map (py_slice left right) (py_slice top bottom frame_gray))"

definition histogram_diff :: "'f cv \<Rightarrow> gray \<Rightarrow> gray \<Rightarrow> real" where
  "histogram_diff C a b =
     (let hist_a = cv_calcHist C a;
          hist_b = cv_calcHist C b;
          hist_a = cv_normalize C hist_a;
          hist_b = cv_normalize C hist_b
      in cv_compareHist C hist_a hist_b)"

definition detect_scene_change :: "'f cv \<Rightarrow> gray option \<Rightarrow> gray \<Rightarrow> real \<Rightarrow> real \<Rightarrow> bool" where
  "detect_scene_change C ref_frame curr_frame ssim_threshold hist_threshold =
     (case ref_frame of
        None \<Rightarrow> True
      | Some r \<Rightarrow>
          (let ref = get_slide_region r;
               curr = get_slide_region curr_frame;
               ref_small = cv_resize C ref;
               curr_small = cv_resize C curr;
               ssim_score = sk_ssim C ref_small curr_small;
               hist_score = histogram_diff C ref_small curr_small
           in ssim_score < ssim_threshold \<or> hist_score > hist_threshold))"

definition is_blurry :: "'f cv \<Rightarrow> gray \<Rightarrow> bool" where
  "is_blurry C frame_gray = (cv_Laplacian_var C frame_gray < BLUR_THRESHOLD)"

definition frames_similar :: "'f cv \<Rightarrow> gray \<Rightarrow> gray \<Rightarrow> real \<Rightarrow> bool" where
  "frames_similar C a b ssim_threshold =
     (let a_crop = get_slide_region a;
          b_crop = get_slide_region b;
          a_small = cv_resize C a_crop;
          b_small = cv_resize C b_crop;
          score = sk_ssim C a_small b_small
      in score \<ge> ssim_threshold)"

section \<open>The extraction run\<close>

text \<open>
  The faults the loop can raise: the division of the progress percentage, and the two
  uses of the candidate at a commit (\<^verbatim>\<open>cv2.imwrite\<close> of a missing image,
  \<^verbatim>\<open>.copy()\<close> of \<^verbatim>\<open>None\<close>).
\<close>

datatype error = ZeroDivisionError | Cv2Error | AttributeError

text \<open>The three message shapes handed to the progress callback, with the slide count.\<close>

datatype message = Analyzing int | Stabilizing int | Done int

text \<open>
  The local variables of \<^verbatim>\<open>extract_slides\<close> that the loop mutates, together with its
  two observable effects: \<open>written\<close> lists the \<^verbatim>\<open>cv2.imwrite\<close> calls in order (the
  slide number that forms the file name \<^verbatim>\<open>slide_NNN.png\<close>, and the image), and
  \<open>reported\<close> lists the calls of the progress callback.
\<close>

record 'f state =
  reference_slide :: "gray option"
  candidate_frame :: "gray option"
  candidate_frame_color :: "'f option"
  stable_count :: int
  slide_count :: int
  frame_idx :: int
  cooldown :: int
  written :: "(int \<times> 'f) list"
  reported :: "(real \<times> message) list"

text \<open>The values fixed before the loop starts.\<close>

record params =
  threshold :: real
  hist_thresh :: real
  total_frames :: int
  min_stable_frames :: int
  cooldown_frames :: int
  progress_callback :: bool

definition init_state :: "'f state" where
  "init_state =
     \<lparr>reference_slide = None, candidate_frame = None, candidate_frame_color = None,
      stable_count = 0, slide_count = 0, frame_idx = 0, cooldown = 0,
      written = [], reported = []\<rparr>"

text \<open>
  \<^verbatim>\<open>if progress_callback: progress = (frame_idx / total_frames) * 100; progress_callback(...)\<close>.
  The division is Python's true division and raises on a zero divisor; \<open>percent i n\<close> is
  the double that \<^verbatim>\<open>(i / n) * 100\<close> evaluates to.
\<close>

definition percent :: "int \<Rightarrow> int \<Rightarrow> real" where
  "percent i n = fl_mul (fl_div (real_of_int i) (real_of_int n)) 100"

definition report :: "params \<Rightarrow> 'f state \<Rightarrow> message \<Rightarrow> error + 'f state" where
  "report P s msg =
     (if progress_callback P then
        (if total_frames P = 0 then Inl ZeroDivisionError
         else Inr (s\<lparr>reported := reported s @
                 [(percent (frame_idx s) (total_frames P), msg)]\<rparr>))
      else Inr s)"

text \<open>Adoption of the current frame as the candidate (also the churn branch).\<close>

definition adopt :: "'f state \<Rightarrow> gray \<Rightarrow> 'f \<Rightarrow> 'f state" where
  "adopt s g frame =
     s\<lparr>candidate_frame := Some g, candidate_frame_color := Some frame, stable_count := 1\<rparr>"

text \<open>The body of \<^verbatim>\<open>if stable_count >= min_stable_frames\<close>.\<close>

definition commit :: "params \<Rightarrow> 'f state \<Rightarrow> error + 'f state" where
  "commit P s =
     (let n = slide_count s + 1 in
      case candidate_frame_color s of
        None \<Rightarrow> Inl Cv2Error
      | Some color \<Rightarrow>
          (case candidate_frame s of
             None \<Rightarrow> Inl AttributeError
           | Some g \<Rightarrow>
               Inr (s\<lparr>slide_count := n, written := written s @ [(n, color)],
                      reference_slide := Some g, candidate_frame := None,
                      stable_count := 0, cooldown := cooldown_frames P\<rparr>)))"

text \<open>The detection part of the loop body, reached outside the first-frame and cooldown cases.\<close>

definition detect :: "'f cv \<Rightarrow> params \<Rightarrow> 'f state \<Rightarrow> gray \<Rightarrow> 'f \<Rightarrow> error + 'f state" where
  "detect C P s g frame =
     (if is_blurry C g then Inr (s\<lparr>stable_count := 0, candidate_frame := None\<rparr>)
      else if detect_scene_change C (reference_slide s) g (threshold P) (hist_thresh P) then
        (let s1 = (case candidate_frame s of
                     None \<Rightarrow> adopt s g frame
                   | Some c \<Rightarrow>
                       if frames_similar C c g (threshold P)
                       then s\<lparr>stable_count := stable_count s + 1\<rparr>
                       else adopt s g frame)
         in if stable_count s1 \<ge> min_stable_frames P then commit P s1 else Inr s1)
      else Inr (s\<lparr>stable_count := 0, candidate_frame := None\<rparr>))"

text \<open>One iteration of \<^verbatim>\<open>while True\<close> for a frame that \<^verbatim>\<open>cap.read()\<close> delivered.\<close>

definition loop_body :: "'f cv \<Rightarrow> params \<Rightarrow> 'f state \<Rightarrow> 'f \<Rightarrow> error + 'f state" where
  "loop_body C P s0 frame =
     (let s = s0\<lparr>frame_idx := frame_idx s0 + 1\<rparr> in
      if frame_idx s mod FRAME_SKIP \<noteq> 0 then Inr s
      else
        (let g = cv_cvtColor C frame in
         if reference_slide s = None then
           (case report P s (Analyzing (slide_count s)) of
              Inl e \<Rightarrow> Inl e
            | Inr s1 \<Rightarrow>
                if is_blurry C g then Inr s1
                else
                  (let n = slide_count s1 + 1 in
                   Inr (s1\<lparr>slide_count := n, written := written s1 @ [(n, frame)],
                           reference_slide := Some g\<rparr>)))
         else if cooldown s > 0 then
           (let s1 = s\<lparr>cooldown := cooldown s - 1\<rparr>
            in report P s1 (Stabilizing (slide_count s1)))
         else
           (case report P s (Analyzing (slide_count s)) of
              Inl e \<Rightarrow> Inl e
            | Inr s1 \<Rightarrow> detect C P s1 g frame)))"

text \<open>The loop over the frames the source yields; a raised fault ends it.\<close>

fun run_loop :: "'f cv \<Rightarrow> params \<Rightarrow> 'f state \<Rightarrow> 'f list \<Rightarrow> error + 'f state" where
  "run_loop C P s [] = Inr s"
| "run_loop C P s (frame # rest) =
     (case loop_body C P s frame of
        Inl e \<Rightarrow> Inl e
      | Inr s' \<Rightarrow> run_loop C P s' rest)"

text \<open>
  The opened capture object: whether it opened, the two properties it reports
  (as the floats \<^verbatim>\<open>cap.get\<close> returns) and the finite sequence of frames that
  \<^verbatim>\<open>cap.read()\<close> delivers before it fails.
\<close>

record 'f capture =
  isOpened :: bool
  prop_fps :: real
  prop_frame_count :: real
  frames :: "'f list"

definition effective_fps :: "real \<Rightarrow> real" where
  "effective_fps fps = (if fps \<le> 0 then 25 else fps)"

text \<open>
  \<^verbatim>\<open>int(MIN_STABLE_SECONDS * fps / FRAME_SKIP)\<close> and \<^verbatim>\<open>int(COOLDOWN_SECONDS * fps / FRAME_SKIP)\<close>,
  for \<open>fps\<close> the double the capture reported: a double product, a double quotient,
  then truncation.
\<close>

definition min_stable_frames_of :: "real \<Rightarrow> int" where
  "min_stable_frames_of fps =
     py_int (fl_div (fl_mul (dbl MIN_STABLE_SECONDS) fps) (real_of_int FRAME_SKIP))"

definition cooldown_frames_of :: "real \<Rightarrow> int" where
  "cooldown_frames_of fps =
     py_int (fl_div (fl_mul (dbl COOLDOWN_SECONDS) fps) (real_of_int FRAME_SKIP))"

definition hist_thresh_of :: "real \<Rightarrow> real" where
  "hist_thresh_of t = 0.15 + (1.0 - t) * 0.2"

definition derive_params :: "'f capture \<Rightarrow> bool \<Rightarrow> real option \<Rightarrow> params" where
  "derive_params cap callback ssim_threshold =
     (let t = (case ssim_threshold of Some t \<Rightarrow> t | None \<Rightarrow> SSIM_THRESHOLD);
          fps = effective_fps (prop_fps cap)
      in \<lparr>threshold = t, hist_thresh = hist_thresh_of t,
          total_frames = py_int (prop_frame_count cap),
          min_stable_frames = min_stable_frames_of fps,
          cooldown_frames = cooldown_frames_of fps,
          progress_callback = callback\<rparr>)"

text \<open>
  The returned dictionary: \<^verbatim>\<open>{"error": ..., "slides": 0}\<close> or
  \<^verbatim>\<open>{"slides": ..., "output_dir": ...}\<close>.
\<close>

datatype result = Failure string int | Success int string

text \<open>
  What a call that returns leaves behind: the dictionary, the directories handed to
  \<^verbatim>\<open>os.makedirs\<close>, the images written and the progress reports made.
\<close>

record 'f outcome =
  returned :: result
  makedirs :: "string list"
  imwrites :: "(int \<times> 'f) list"
  reports :: "(real \<times> message) list"

definition extract_slides ::
  "'f cv \<Rightarrow> 'f capture \<Rightarrow> string \<Rightarrow> bool \<Rightarrow> real option \<Rightarrow> error + 'f outcome" where
  "extract_slides C cap output_dir callback ssim_threshold =
     (if \<not> isOpened cap then
        Inr \<lparr>returned = Failure ''Cannot open video'' 0, makedirs = [],
             imwrites = [], reports = []\<rparr>
      else
        (let P = derive_params cap callback ssim_threshold in
         case run_loop C P init_state (frames cap) of
           Inl e \<Rightarrow> Inl e
         | Inr s \<Rightarrow>
             Inr \<lparr>returned = Success (slide_count s) output_dir,
                  makedirs = [output_dir],
                  imwrites = written s,
                  reports = reported s @
                    (if callback then [(100, Done (slide_count s))] else [])\<rparr>))"

section \<open>The invariant of the loop\<close>

text \<open>
  What holds of the loop variables before and after every iteration: the cooldown counter
  is never negative; there is a stability count only while there is a candidate; a
  candidate exists only outside cooldown, once a reference exists, with a count below the
  commit bound, and is the grayscale of the stored colour image; the reference is the
  grayscale of the image written last; slides are numbered by the number of writes.
\<close>

definition engine_inv :: "'f cv \<Rightarrow> params \<Rightarrow> 'f state \<Rightarrow> bool" where
  "engine_inv C P s \<longleftrightarrow>
     0 \<le> cooldown s \<and>
     (candidate_frame s = None \<longrightarrow> stable_count s = 0) \<and>
     (candidate_frame s \<noteq> None \<longrightarrow>
        cooldown s = 0 \<and> reference_slide s \<noteq> None \<and>
        1 \<le> stable_count s \<and> stable_count s < min_stable_frames P \<and>
        candidate_frame s = map_option (cv_cvtColor C) (candidate_frame_color s)) \<and>
     (written s = [] \<longrightarrow> reference_slide s = None \<and> cooldown s = 0) \<and>
     (written s \<noteq> [] \<longrightarrow>
        reference_slide s = Some (cv_cvtColor C (snd (last (written s))))) \<and>
     slide_count s = int (length (written s))"

definition returns_inv :: "'f cv \<Rightarrow> params \<Rightarrow> error + 'f state \<Rightarrow> bool" where
  "returns_inv C P r = (case r of Inl e \<Rightarrow> False | Inr s' \<Rightarrow> engine_inv C P s')"

section \<open>Concrete inputs\<close>

text \<open>
  A small instance of the primitives on which the definitions can be run: a frame is a
  number \<open>n\<close>, its grayscale form a 2x2 image whose slide region is the single pixel
  \<open>n\<close>; frame 0 is blurry and every other frame sharp; two different regions have
  structural similarity 0.8 and all histograms agree.
\<close>

definition img :: "nat \<Rightarrow> gray" where
  "img n = [n, 0] # [0, 0] # []"

definition demo_cv :: "nat cv" where
  "demo_cv = \<lparr>cv_cvtColor = img, cv_resize = (\<lambda>g. g),
     cv_Laplacian_var = (\<lambda>g. if g = img 0 then 0 else 100),
     cv_calcHist = (\<lambda>g. []), cv_normalize = (\<lambda>h. h), cv_compareHist = (\<lambda>a b. 0),
     sk_ssim = (\<lambda>a b. if a = b then 1 else 0.8)\<rparr>"

definition demo_cap :: "nat list \<Rightarrow> real \<Rightarrow> real \<Rightarrow> nat capture" where
  "demo_cap fs fps n = \<lparr>isOpened = True, prop_fps = fps, prop_frame_count = n, frames = fs\<rparr>"

definition closed_cap :: "nat capture" where
  "closed_cap = \<lparr>isOpened = False, prop_fps = 0, prop_frame_count = 0, frames = []\<rparr>"

section \<open>Sampled frames\<close>

text \<open>
  The loop examines the frames whose 1-based number is a multiple of \<^verbatim>\<open>FRAME_SKIP\<close>;
  \<open>sampled fs j\<close> is the \<open>j\<close>-th of them, counted from 0.
\<close>

definition sampled :: "'f list \<Rightarrow> nat \<Rightarrow> 'f" where
  "sampled fs j = fs ! (nat FRAME_SKIP * (j + 1) - 1)"

section \<open>Commit times\<close>

text \<open>
  \<open>commit_steps\<close> observes a run: it lists the frame numbers (\<^verbatim>\<open>frame_idx\<close>) of the
  iterations that raised the slide count. Commits happen at sampled frames only, so the
  distance of two commits in sampled frames is the difference of their frame numbers
  divided by \<^verbatim>\<open>FRAME_SKIP\<close>. \<open>spaced d ts\<close> says that consecutive entries of
  \<open>ts\<close> are at least \<open>d\<close> apart.
\<close>

fun commit_steps :: "'f cv \<Rightarrow> params \<Rightarrow> 'f state \<Rightarrow> 'f list \<Rightarrow> int list" where
  "commit_steps C P s [] = []"
| "commit_steps C P s (frame # rest) =
     (case loop_body C P s frame of
        Inl e \<Rightarrow> []
      | Inr s' \<Rightarrow>
          (if slide_count s' \<noteq> slide_count s then [frame_idx s'] else []) @
          commit_steps C P s' rest)"

fun spaced :: "int \<Rightarrow> int list \<Rightarrow> bool" where
  "spaced d [] = True"
| "spaced d [t] = True"
| "spaced d (t # u # ts) = (t + d \<le> u \<and> spaced d (u # ts))"

text \<open>
  \<open>earliest P s\<close> is a lower bound on the frame number of the next commit after state
  \<open>s\<close>: the remaining cooldown followed by a full stability window, or what is left of
  the window of the current candidate. \<open>gap P\<close> is the distance, in frame numbers, that
  this bound keeps from a commit just made.
\<close>

definition earliest :: "params \<Rightarrow> 'f state \<Rightarrow> int" where
  "earliest P s =
     FRAME_SKIP * (frame_idx s div FRAME_SKIP +
       (if 0 < cooldown s then cooldown s + max 1 (min_stable_frames P)
        else max 1 (min_stable_frames P - stable_count s)))"

definition gap :: "params \<Rightarrow> int" where
  "gap P = FRAME_SKIP * (cooldown_frames P + max 1 (min_stable_frames P))"

text \<open>
  The frames of a source that shows three pictures, each long enough to be committed at
  10 frames per second (stability window 4, cooldown 1).
\<close>

definition three_slides :: "nat list" where
  "three_slides = [9, 1, 9, 2, 9, 2, 9, 2, 9, 2, 9, 3, 9, 3, 9, 3, 9, 3, 9, 3]"

section \<open>Preservation of the invariant\<close>

lemma engine_inv_init: "engine_inv C P init_state"
  by (simp add: engine_inv_def init_state_def)

lemma report_Inr:
  "report P s msg = Inr s' \<Longrightarrow> \<exists>r. s' = s\<lparr>reported := r\<rparr>"
  by (cases "progress_callback P") (auto simp: report_def split: if_splits intro: exI[of _ "reported s"])

lemma report_Inl:
  "report P s msg = Inl e \<Longrightarrow> e = ZeroDivisionError \<and> progress_callback P \<and> total_frames P = 0"
  by (auto simp: report_def split: if_splits)

lemma engine_inv_reset:
  "engine_inv C P s \<Longrightarrow> engine_inv C P (s\<lparr>stable_count := 0, candidate_frame := None\<rparr>)"
  by (auto simp: engine_inv_def)

lemma engine_inv_adopt:
  "engine_inv C P s \<Longrightarrow> cooldown s = 0 \<Longrightarrow> reference_slide s \<noteq> None \<Longrightarrow>
   1 < min_stable_frames P \<Longrightarrow> engine_inv C P (adopt s (cv_cvtColor C f) f)"
  by (auto simp: engine_inv_def adopt_def)

lemma engine_inv_extend:
  "engine_inv C P s \<Longrightarrow> candidate_frame s \<noteq> None \<Longrightarrow>
   stable_count s + 1 < min_stable_frames P \<Longrightarrow>
   engine_inv C P (s\<lparr>stable_count := stable_count s + 1\<rparr>)"
  by (auto simp: engine_inv_def)

lemma commit_adopt:
  "engine_inv C P s \<Longrightarrow> 0 \<le> cooldown_frames P \<Longrightarrow>
   returns_inv C P (commit P (adopt s (cv_cvtColor C f) f))"
  by (auto simp: returns_inv_def engine_inv_def adopt_def commit_def Let_def)

lemma commit_extend:
  "engine_inv C P s \<Longrightarrow> 0 \<le> cooldown_frames P \<Longrightarrow> candidate_frame s \<noteq> None \<Longrightarrow>
   returns_inv C P (commit P (s\<lparr>stable_count := stable_count s + 1\<rparr>))"
  by (auto simp: returns_inv_def engine_inv_def commit_def Let_def split: option.splits)

lemma detect_inv:
  assumes cf: "0 \<le> cooldown_frames P" and inv: "engine_inv C P s" and cd: "cooldown s = 0"
    and ref: "reference_slide s \<noteq> None"
  shows "returns_inv C P (detect C P s (cv_cvtColor C f) f)"
proof -
  let ?g = "cv_cvtColor C f"
  let ?reset = "s\<lparr>stable_count := 0, candidate_frame := None\<rparr>"
  let ?ext = "s\<lparr>stable_count := stable_count s + 1\<rparr>"
  have reset: "returns_inv C P (Inr ?reset)"
    using engine_inv_reset[OF inv] by (simp add: returns_inv_def)
  have adopt: "returns_inv C P
      (if stable_count (adopt s ?g f) \<ge> min_stable_frames P
       then commit P (adopt s ?g f) else Inr (adopt s ?g f))"
  proof (cases "1 < min_stable_frames P")
    case True
    then show ?thesis
      using engine_inv_adopt[OF inv cd ref True, of f]
      by (simp add: returns_inv_def adopt_def)
  next
    case False
    then show ?thesis
      using commit_adopt[OF inv cf, of f] by (simp add: adopt_def)
  qed
  have ext: "candidate_frame s \<noteq> None \<Longrightarrow> returns_inv C P
      (if stable_count ?ext \<ge> min_stable_frames P then commit P ?ext else Inr ?ext)"
    using commit_extend[OF inv cf] engine_inv_extend[OF inv]
    by (simp add: returns_inv_def)
  show ?thesis
  proof (cases "is_blurry C ?g")
    case True
    with reset show ?thesis by (simp add: detect_def)
  next
    case sharp: False
    show ?thesis
    proof (cases "detect_scene_change C (reference_slide s) ?g (threshold P) (hist_thresh P)")
      case False
      with sharp reset show ?thesis by (simp add: detect_def)
    next
      case changed: True
      show ?thesis
      proof (cases "candidate_frame s")
        case None
        with sharp changed adopt show ?thesis by (simp add: detect_def Let_def)
      next
        case (Some c)
        show ?thesis
        proof (cases "frames_similar C c ?g (threshold P)")
          case True
          with sharp changed Some ext show ?thesis by (simp add: detect_def Let_def)
        next
          case False
          with sharp changed Some adopt show ?thesis by (simp add: detect_def Let_def)
        qed
      qed
    qed
  qed
qed

lemma engine_inv_reported:
  "engine_inv C P (s\<lparr>reported := r\<rparr>) = engine_inv C P s"
  by (simp add: engine_inv_def)

lemma engine_inv_frame_idx:
  "engine_inv C P (s\<lparr>frame_idx := i\<rparr>) = engine_inv C P s"
  by (simp add: engine_inv_def)

text \<open>The four ways through the loop body.\<close>

lemma loop_body_skip:
  "(frame_idx s + 1) mod FRAME_SKIP \<noteq> 0 \<Longrightarrow>
   loop_body C P s f = Inr (s\<lparr>frame_idx := frame_idx s + 1\<rparr>)"
  by (simp add: loop_body_def Let_def)

lemma loop_body_first:
  "(frame_idx s + 1) mod FRAME_SKIP = 0 \<Longrightarrow> reference_slide s = None \<Longrightarrow>
   loop_body C P s f =
     (case report P (s\<lparr>frame_idx := frame_idx s + 1\<rparr>) (Analyzing (slide_count s)) of
        Inl e \<Rightarrow> Inl e
      | Inr s1 \<Rightarrow>
          if is_blurry C (cv_cvtColor C f) then Inr s1
          else Inr (s1\<lparr>slide_count := slide_count s1 + 1,
                       written := written s1 @ [(slide_count s1 + 1, f)],
                       reference_slide := Some (cv_cvtColor C f)\<rparr>))"
  by (auto simp: loop_body_def Let_def split: sum.splits)

lemma loop_body_cooldown:
  "(frame_idx s + 1) mod FRAME_SKIP = 0 \<Longrightarrow> reference_slide s \<noteq> None \<Longrightarrow> 0 < cooldown s \<Longrightarrow>
   loop_body C P s f =
     report P (s\<lparr>frame_idx := frame_idx s + 1, cooldown := cooldown s - 1\<rparr>)
       (Stabilizing (slide_count s))"
  by (auto simp: loop_body_def Let_def)

lemma loop_body_detect:
  "(frame_idx s + 1) mod FRAME_SKIP = 0 \<Longrightarrow> reference_slide s \<noteq> None \<Longrightarrow> \<not> 0 < cooldown s \<Longrightarrow>
   loop_body C P s f =
     (case report P (s\<lparr>frame_idx := frame_idx s + 1\<rparr>) (Analyzing (slide_count s)) of
        Inl e \<Rightarrow> Inl e
      | Inr s1 \<Rightarrow> detect C P s1 (cv_cvtColor C f) f)"
  by (auto simp: loop_body_def Let_def split: sum.splits)

lemma loop_body_step:
  assumes cf: "0 \<le> cooldown_frames P" and inv: "engine_inv C P s"
  shows "returns_inv C P (loop_body C P s f) \<or>
         (loop_body C P s f = Inl ZeroDivisionError \<and> progress_callback P \<and> total_frames P = 0)"
proof -
  let ?s = "s\<lparr>frame_idx := frame_idx s + 1\<rparr>"
  consider (skip) "(frame_idx s + 1) mod FRAME_SKIP \<noteq> 0"
    | (first) "(frame_idx s + 1) mod FRAME_SKIP = 0" "reference_slide s = None"
    | (cool) "(frame_idx s + 1) mod FRAME_SKIP = 0" "reference_slide s \<noteq> None" "0 < cooldown s"
    | (det) "(frame_idx s + 1) mod FRAME_SKIP = 0" "reference_slide s \<noteq> None" "\<not> 0 < cooldown s"
    by fastforce
  then show ?thesis
  proof cases
    case skip
    then show ?thesis using inv
      by (simp add: loop_body_skip engine_inv_frame_idx returns_inv_def)
  next
    case first
    show ?thesis
    proof (cases "report P ?s (Analyzing (slide_count s))")
      case (Inl e)
      with first report_Inl[OF Inl] show ?thesis by (simp add: loop_body_first)
    next
      case (Inr s1)
      then obtain r where s1: "s1 = ?s\<lparr>reported := r\<rparr>" using report_Inr by blast
      from inv first(2) have "written s = []" "candidate_frame s = None" "stable_count s = 0"
        "cooldown s = 0" "slide_count s = 0"
        by (auto simp: engine_inv_def)
      with first Inr s1 show ?thesis
        by (simp add: loop_body_first engine_inv_def returns_inv_def)
    qed
  next
    case cool
    let ?c = "s\<lparr>frame_idx := frame_idx s + 1, cooldown := cooldown s - 1\<rparr>"
    have invc: "engine_inv C P ?c"
      using inv cool by (auto simp: engine_inv_def)
    show ?thesis
    proof (cases "report P ?c (Stabilizing (slide_count s))")
      case (Inl e)
      with cool report_Inl[OF Inl] show ?thesis by (simp add: loop_body_cooldown)
    next
      case (Inr s1)
      then obtain r where s1: "s1 = ?c\<lparr>reported := r\<rparr>" using report_Inr by blast
      have "engine_inv C P s1" unfolding s1 engine_inv_reported by (rule invc)
      with cool Inr show ?thesis by (simp add: loop_body_cooldown returns_inv_def)
    qed
  next
    case det
    from inv det(3) have cd: "cooldown s = 0" by (simp add: engine_inv_def)
    show ?thesis
    proof (cases "report P ?s (Analyzing (slide_count s))")
      case (Inl e)
      with det report_Inl[OF Inl] show ?thesis by (simp add: loop_body_detect)
    next
      case (Inr s1)
      then obtain r where s1: "s1 = ?s\<lparr>reported := r\<rparr>" using report_Inr by blast
      have "engine_inv C P s1" "cooldown s1 = 0" "reference_slide s1 \<noteq> None"
        using inv cd det(2) by (simp_all add: s1 engine_inv_reported engine_inv_frame_idx)
      from detect_inv[OF cf this, of f] det Inr show ?thesis
        by (simp add: loop_body_detect)
    qed
  qed
qed

lemma loop_body_inv:
  assumes "0 \<le> cooldown_frames P" "engine_inv C P s" "loop_body C P s f = Inr s'"
  shows "engine_inv C P s'"
  using loop_body_step[OF assms(1,2), of f] assms(3) by (simp add: returns_inv_def)

lemma loop_body_Inl:
  assumes "0 \<le> cooldown_frames P" "engine_inv C P s" "loop_body C P s f = Inl e"
  shows "e = ZeroDivisionError \<and> progress_callback P \<and> total_frames P = 0"
  using loop_body_step[OF assms(1,2), of f] assms(3) by (simp add: returns_inv_def)

lemma run_loop_step:
  assumes cf: "0 \<le> cooldown_frames P"
  shows "engine_inv C P s \<Longrightarrow>
     returns_inv C P (run_loop C P s fs) \<or>
     (run_loop C P s fs = Inl ZeroDivisionError \<and> progress_callback P \<and> total_frames P = 0)"
proof (induction fs arbitrary: s)
  case Nil
  then show ?case by (simp add: returns_inv_def)
next
  case (Cons f fs)
  show ?case
  proof (cases "loop_body C P s f")
    case (Inl e)
    with loop_body_Inl[OF cf Cons.prems Inl] show ?thesis by simp
  next
    case (Inr s1)
    from Cons.IH[OF loop_body_inv[OF cf Cons.prems Inr]] Inr show ?thesis by simp
  qed
qed

lemma run_loop_inv:
  "0 \<le> cooldown_frames P \<Longrightarrow> engine_inv C P s \<Longrightarrow> run_loop C P s fs = Inr s' \<Longrightarrow>
   engine_inv C P s'"
  using run_loop_step[of P C s fs] by (simp add: returns_inv_def)

lemma run_loop_Inl:
  "0 \<le> cooldown_frames P \<Longrightarrow> engine_inv C P s \<Longrightarrow> run_loop C P s fs = Inl e \<Longrightarrow>
   e = ZeroDivisionError \<and> progress_callback P \<and> total_frames P = 0"
  using run_loop_step[of P C s fs] by (simp add: returns_inv_def)

lemma effective_fps_pos: "0 < effective_fps fps"
  by (simp add: effective_fps_def)

lemma pow2_pos: "0 < pow2 k"
  by (simp add: pow2_def)

lemma round_half_even_nonneg: "0 \<le> x \<Longrightarrow> 0 \<le> round_half_even x"
  by (simp add: round_half_even_def nearest_even_def)

lemma dbl_nonneg: "0 \<le> x \<Longrightarrow> 0 \<le> dbl x"
proof (cases "x = 0")
  case True
  then show ?thesis by (simp add: dbl_def)
next
  case False
  assume "0 \<le> x"
  with False have pos: "0 < x" by simp
  have "0 \<le> \<bar>x\<bar> / pow2 (expo \<bar>x\<bar> - 52)"
    using pow2_pos[of "expo \<bar>x\<bar> - 52"] by simp
  then have "0 \<le> round_half_even (\<bar>x\<bar> / pow2 (expo \<bar>x\<bar> - 52))"
    by (rule round_half_even_nonneg)
  then have "0 \<le> round_to_unit (expo \<bar>x\<bar> - 52) \<bar>x\<bar>"
    using pow2_pos[of "expo \<bar>x\<bar> - 52"] by (simp add: round_to_unit_def)
  with pos show ?thesis by (simp add: dbl_def)
qed

lemma frames_quotient_nonneg:
  "0 \<le> c \<Longrightarrow>
   0 \<le> fl_div (fl_mul (dbl c) (effective_fps fps)) (real_of_int FRAME_SKIP)"
proof -
  assume "0 \<le> c"
  then have "0 \<le> dbl c * effective_fps fps"
    using effective_fps_pos[of fps] dbl_nonneg[of c] by simp
  then have "0 \<le> fl_mul (dbl c) (effective_fps fps)"
    unfolding fl_mul_def by (rule dbl_nonneg)
  then have "0 \<le> fl_mul (dbl c) (effective_fps fps) / real_of_int FRAME_SKIP"
    by (simp add: FRAME_SKIP_def)
  then show ?thesis unfolding fl_div_def by (rule dbl_nonneg)
qed

lemma cooldown_frames_of_nonneg: "0 \<le> cooldown_frames_of (effective_fps fps)"
  using frames_quotient_nonneg[of COOLDOWN_SECONDS fps]
  by (simp add: cooldown_frames_of_def py_int_def COOLDOWN_SECONDS_def)

lemma derive_params_cooldown: "0 \<le> cooldown_frames (derive_params cap cb t)"
  by (simp add: derive_params_def Let_def cooldown_frames_of_nonneg)

lemma run_loop_append:
  "run_loop C P s (xs @ ys) =
     (case run_loop C P s xs of Inl e \<Rightarrow> Inl e | Inr s' \<Rightarrow> run_loop C P s' ys)"
  by (induction xs arbitrary: s) (auto split: sum.splits)

section \<open>The rounding is to a nearest number with 53 significant bits\<close>

text \<open>
  \<open>expo\<close> is the binary exponent, so the unit \<open>pow2 (expo \<bar>x\<bar> - 52)\<close> is the distance of
  neighbouring 53-bit numbers at \<open>x\<close>, and \<open>dbl x\<close>, a multiple of that unit, is within
  half a unit of \<open>x\<close>.
\<close>

lemma pow2_succ: "pow2 (k + 1) = 2 * pow2 k"
proof (cases "0 \<le> k")
  case True
  then show ?thesis by (simp add: pow2_def nat_add_distrib)
next
  case False
  then have "nat (- k) = Suc (nat (- (k + 1)))" by simp
  with False show ?thesis by (auto simp: pow2_def)
qed

lemma halvings_bounds: "1 \<le> x \<Longrightarrow> pow2 (halvings x) \<le> x \<and> x < pow2 (halvings x + 1)"
proof (induction x rule: halvings.induct)
  case (1 x)
  show ?case
  proof (cases "2 \<le> x")
    case True
    let ?h = "halvings (x / 2)"
    from True have "1 \<le> x / 2" by simp
    from "1.IH"[OF True this] have lo: "pow2 ?h \<le> x / 2" and hi: "x / 2 < pow2 (?h + 1)"
      by simp_all
    have a: "pow2 (?h + 1) = 2 * pow2 ?h" and b: "pow2 (?h + 1 + 1) = 2 * pow2 (?h + 1)"
      by (rule pow2_succ)+
    from lo a have l: "pow2 (?h + 1) \<le> x" by linarith
    from hi b have h: "x < pow2 (?h + 1 + 1)" by linarith
    have hx: "halvings x = ?h + 1"
      using True by (subst halvings.simps) simp
    from l h show ?thesis unfolding hx by blast
  next
    case False
    then have "halvings x = 0" by (subst halvings.simps) simp
    with False "1.prems" show ?thesis by (simp add: pow2_def)
  qed
qed

lemma doublings_bounds:
  "0 < x \<Longrightarrow> x < 1 \<Longrightarrow> pow2 (- doublings x) \<le> x \<and> x < pow2 (- doublings x + 1)"
proof (induction x rule: doublings.induct)
  case (1 x)
  have d: "doublings x = doublings (x * 2) + 1"
    using "1.prems" by (subst doublings.simps) simp
  show ?case
  proof (cases "x * 2 < 1")
    case True
    from "1.IH" "1.prems" True have "pow2 (- doublings (x * 2)) \<le> x * 2"
      and "x * 2 < pow2 (- doublings (x * 2) + 1)" by simp_all
    moreover have "pow2 (- doublings (x * 2)) = 2 * pow2 (- doublings x)"
      using pow2_succ[of "- doublings x"] by (simp add: d)
    moreover have "pow2 (- doublings (x * 2) + 1) = 2 * pow2 (- doublings x + 1)"
      using pow2_succ[of "- doublings x + 1"] by (simp add: d)
    ultimately show ?thesis by simp
  next
    case False
    then have "doublings (x * 2) = 0" by (subst doublings.simps) simp
    with d have "doublings x = 1" by simp
    with False "1.prems" show ?thesis by (simp add: pow2_def)
  qed
qed

lemma expo_bounds: "0 < a \<Longrightarrow> pow2 (expo a) \<le> a \<and> a < pow2 (expo a + 1)"
  using halvings_bounds[of a] doublings_bounds[of a] by (cases "1 \<le> a") (simp_all add: expo_def)

lemma round_half_even_near: "\<bar>real_of_int (round_half_even y) - y\<bar> \<le> 1 / 2"
  unfolding round_half_even_def nearest_even_def by (simp split: if_splits)

lemma dbl_near: "\<bar>dbl x - x\<bar> \<le> pow2 (expo \<bar>x\<bar> - 52) / 2"
proof (cases "x = 0")
  case True
  then show ?thesis using pow2_pos[of "expo \<bar>x\<bar> - 52"] by (simp add: dbl_def)
next
  case False
  let ?u = "pow2 (expo \<bar>x\<bar> - 52)"
  let ?n = "real_of_int (round_half_even (\<bar>x\<bar> / ?u))"
  have u: "0 < ?u" by (rule pow2_pos)
  have "\<bar>?n - \<bar>x\<bar> / ?u\<bar> \<le> 1 / 2" by (rule round_half_even_near)
  then have "\<bar>?n - \<bar>x\<bar> / ?u\<bar> * ?u \<le> 1 / 2 * ?u"
    using u by (simp only: mult_le_cancel_right_pos)
  moreover have "\<bar>?n - \<bar>x\<bar> / ?u\<bar> * ?u = \<bar>?n * ?u - \<bar>x\<bar>\<bar>"
  proof -
    have "?n * ?u - \<bar>x\<bar> = (?n - \<bar>x\<bar> / ?u) * ?u"
      using u by (simp add: left_diff_distrib)
    then have "\<bar>?n * ?u - \<bar>x\<bar>\<bar> = \<bar>?n - \<bar>x\<bar> / ?u\<bar> * \<bar>?u\<bar>"
      by (simp only: abs_mult)
    with u show ?thesis by simp
  qed
  ultimately have near: "\<bar>?n * ?u - \<bar>x\<bar>\<bar> \<le> ?u / 2" by simp
  have "dbl x - x = sgn x * (?n * ?u - \<bar>x\<bar>)"
    using False by (simp add: dbl_def round_to_unit_def right_diff_distrib sgn_real_def)
  then have "\<bar>dbl x - x\<bar> = \<bar>?n * ?u - \<bar>x\<bar>\<bar>"
    using False by (simp add: abs_mult sgn_real_def)
  with near show ?thesis by simp
qed

section \<open>Values of the double-precision arithmetic\<close>

lemmas dbl_eval =
  dbl_def fl_mul_def fl_div_def round_to_unit_def expo_def halvings.simps doublings.simps
  pow2_def round_half_even_def nearest_even_def

lemmas frames_of_eval =
  min_stable_frames_of_def cooldown_frames_of_def py_int_def MIN_STABLE_SECONDS_def
  COOLDOWN_SECONDS_def FRAME_SKIP_def dbl_eval

text \<open>The two literals, and the constants at the frame rates used below.\<close>

lemma dbl_literals:
  "dbl MIN_STABLE_SECONDS = 3602879701896397 / 4503599627370496"
  "dbl COOLDOWN_SECONDS = 5404319552844595 / 18014398509481984"
  by (simp_all add: MIN_STABLE_SECONDS_def COOLDOWN_SECONDS_def dbl_eval)

lemma frames_at_25: "min_stable_frames_of 25 = 10" "cooldown_frames_of 25 = 3"
  by (simp_all add: frames_of_eval)

lemma frames_at_10: "min_stable_frames_of 10 = 4" "cooldown_frames_of 10 = 1"
  by (simp_all add: frames_of_eval)

lemma frames_at_5: "min_stable_frames_of 5 = 2" "cooldown_frames_of 5 = 0"
  by (simp_all add: frames_of_eval)

text \<open>
  Two frame rates at which the rounding of the product decides the count: just below 25
  the exact value of \<open>0.8 * fps / 2\<close> is below 10 and the double is 10; at the double
  nearest to 340/3 the exact value of \<open>0.3 * fps / 2\<close> is below 17 and the double is 17.
\<close>

lemma frames_below_25: "min_stable_frames_of (25 - 1 / 2 ^ 48) = 10"
  by (simp add: frames_of_eval)

lemma cooldown_at_340_thirds: "cooldown_frames_of (dbl (340 / 3)) = 17"
  by (simp add: frames_of_eval)

lemma percent_of_8: "percent 2 8 = 25" "percent 4 8 = 50" "percent 6 8 = 75"
  by (simp_all add: percent_def dbl_eval)

lemmas demo_simps =
  img_def demo_cv_def demo_cap_def closed_cap_def extract_slides_def derive_params_def
  loop_body_def detect_def commit_def adopt_def report_def init_state_def
  is_blurry_def detect_scene_change_def frames_similar_def histogram_diff_def
  get_slide_region_def shape_def py_slice_def py_int_def
  effective_fps_def frames_at_25 frames_at_10 frames_at_5 percent_of_8 hist_thresh_of_def
  SSIM_THRESHOLD_def BLUR_THRESHOLD_def FRAME_SKIP_def Let_def

section \<open>Claims about the entry point\<close>

text \<open>
  C9. If the source cannot be opened, \<^verbatim>\<open>extract_slides\<close> returns (it does not raise)
  the error dictionary with the message and a slide count of zero, and it has written
  nothing: no image, and the output directory was not created.
\<close>

theorem unopenable_source:
  "\<not> isOpened cap \<Longrightarrow>
   extract_slides C cap output_dir callback ssim_threshold =
     Inr \<lparr>returned = Failure ''Cannot open video'' 0, makedirs = [], imwrites = [],
          reports = []\<rparr>"
  by (simp add: extract_slides_def)

theorem unopenable_source_witness:
  "\<not> isOpened closed_cap \<and>
   extract_slides demo_cv closed_cap ''out'' True None =
     Inr \<lparr>returned = Failure ''Cannot open video'' 0, makedirs = [], imwrites = [],
          reports = []\<rparr>"
proof -
  have h: "\<not> isOpened closed_cap" by (simp add: closed_cap_def)
  from unopenable_source[OF h] h show ?thesis by simp
qed

text \<open>
  C2, as stated: the derived constants are rounded to the nearest integer, so that at
  25 frames per second \<^verbatim>\<open>cooldown_frames\<close> would be \<open>round 3.75 = 4\<close>. The code
  converts with \<^verbatim>\<open>int\<close>, which truncates: at 25 frames per second the cooldown is 3.
\<close>

theorem cooldown_rounding_counterexample:
  "cooldown_frames_of (effective_fps 25) = 3 \<and>
   round (COOLDOWN_SECONDS * effective_fps 25 / real_of_int FRAME_SKIP) = 4"
  by (simp add: frames_at_25 effective_fps_def COOLDOWN_SECONDS_def FRAME_SKIP_def round_def)

text \<open>
  C2, amended: for every reported frame rate, with \<open>fps\<close> the rate after the fallback
  to 25, \<^verbatim>\<open>min_stable_frames\<close> is the double-precision value of
  \<open>0.8 * fps / FRAME_SKIP\<close> rounded down to an integer, and \<^verbatim>\<open>cooldown_frames\<close> is the
  double-precision value of \<open>0.3 * fps / FRAME_SKIP\<close> rounded down; neither is negative.
\<close>

theorem derived_constants_truncate:
  "min_stable_frames (derive_params cap callback t) =
     \<lfloor>fl_div (fl_mul (dbl MIN_STABLE_SECONDS) (effective_fps (prop_fps cap)))
        (real_of_int FRAME_SKIP)\<rfloor> \<and>
   cooldown_frames (derive_params cap callback t) =
     \<lfloor>fl_div (fl_mul (dbl COOLDOWN_SECONDS) (effective_fps (prop_fps cap)))
        (real_of_int FRAME_SKIP)\<rfloor> \<and>
   0 \<le> min_stable_frames (derive_params cap callback t) \<and>
   0 \<le> cooldown_frames (derive_params cap callback t)"
  using frames_quotient_nonneg[of MIN_STABLE_SECONDS "prop_fps cap"]
    frames_quotient_nonneg[of COOLDOWN_SECONDS "prop_fps cap"]
  by (simp add: derive_params_def Let_def min_stable_frames_of_def cooldown_frames_of_def
      py_int_def MIN_STABLE_SECONDS_def COOLDOWN_SECONDS_def)

text \<open>
  C8 says that the run completes whatever frame count the source reports, with or
  without a progress callback. On a source of two frames that reports a frame count of
  zero, with a callback supplied, the percentage computed at the first sampled frame
  divides by zero and the call raises.
\<close>

theorem zero_frame_count_raises:
  "extract_slides demo_cv (demo_cap [1, 1] 25 0) ''out'' True None = Inl ZeroDivisionError"
  by (simp add: demo_simps)




section \<open>Claims about the thresholds\<close>

text \<open>
  C1, as stated: lowering the similarity threshold never lowers the number of slides.
  On a source that shows one picture and then a second one whose structural similarity
  to the first is 0.8, the threshold 0.85 yields two slides and the lower threshold 0.5
  yields one.
\<close>

theorem threshold_counterexample:
  "extract_slides demo_cv (demo_cap [1, 1, 2, 2, 2, 2] 5 6) ''out'' False (Some 0.85) =
     Inr \<lparr>returned = Success 2 ''out'', makedirs = [''out''],
          imwrites = [(1, 1), (2, 2)], reports = []\<rparr> \<and>
   extract_slides demo_cv (demo_cap [1, 1, 2, 2, 2, 2] 5 6) ''out'' False (Some 0.5) =
     Inr \<lparr>returned = Success 1 ''out'', makedirs = [''out''],
          imwrites = [(1, 1)], reports = []\<rparr>"
  by (simp add: demo_simps)

text \<open>
  C1, amended: for the same pair of frames, lowering the similarity threshold (with the
  histogram threshold derived from it) never turns a verdict of no change of
  \<^verbatim>\<open>detect_scene_change\<close> into a change, and never turns a verdict of similar of
  \<^verbatim>\<open>frames_similar\<close> into dissimilar.
\<close>

theorem verdicts_monotone:
  "t1 \<le> t2 \<Longrightarrow>
   (detect_scene_change C ref cur t1 (hist_thresh_of t1) \<longrightarrow>
      detect_scene_change C ref cur t2 (hist_thresh_of t2)) \<and>
   (frames_similar C a b t2 \<longrightarrow> frames_similar C a b t1)"
proof -
  assume le: "t1 \<le> t2"
  then have "hist_thresh_of t2 \<le> hist_thresh_of t1"
    by (simp add: hist_thresh_of_def)
  with le show ?thesis
    by (cases ref) (auto simp: detect_scene_change_def frames_similar_def Let_def)
qed

theorem verdicts_monotone_witness:
  "(0.85::real) \<le> 0.9 \<and>
   detect_scene_change demo_cv (Some (img 1)) (img 2) 0.85 (hist_thresh_of 0.85) \<and>
   detect_scene_change demo_cv (Some (img 1)) (img 2) 0.9 (hist_thresh_of 0.9) \<and>
   frames_similar demo_cv (img 2) (img 2) 0.9 \<and>
   frames_similar demo_cv (img 2) (img 2) 0.85"
proof -
  have h: "(0.85::real) \<le> 0.9" by simp
  have d: "detect_scene_change demo_cv (Some (img 1)) (img 2) 0.85
      (hist_thresh_of 0.85)"
    by (simp add: demo_simps)
  have f: "frames_similar demo_cv (img 2) (img 2) 0.9"
    by (simp add: demo_simps)
  from verdicts_monotone[OF h, of demo_cv "Some (img 1)" "(img 2)"
      "(img 2)" "(img 2)"] h d f
  show ?thesis by simp
qed

section \<open>Claims about the loop\<close>

lemma reachable_inv:
  "run_loop C (derive_params cap callback t) init_state fs = Inr s \<Longrightarrow>
   engine_inv C (derive_params cap callback t) s"
  by (rule run_loop_inv[OF derive_params_cooldown engine_inv_init])

text \<open>
  C4. In every state the loop reaches from the initial one (so in the initial state and
  after every iteration, whichever branch it took), a candidate and a positive cooldown
  counter do not coexist: while the cooldown counter is positive there is no candidate,
  and while there is a candidate the cooldown counter is 0.
\<close>

theorem candidate_excludes_cooldown:
  "run_loop C (derive_params cap callback t) init_state fs = Inr s \<Longrightarrow>
   (0 < cooldown s \<longrightarrow> candidate_frame s = None) \<and>
   (candidate_frame s \<noteq> None \<longrightarrow> cooldown s = 0)"
  using reachable_inv[of C cap callback t fs s] by (auto simp: engine_inv_def)

theorem candidate_excludes_cooldown_witness:
  "run_loop demo_cv (derive_params (demo_cap [1, 1, 2, 2] 25 4) False None) init_state
     [1, 1, 2, 2] =
     Inr \<lparr>reference_slide = Some (img 1), candidate_frame = Some (img 2),
          candidate_frame_color = Some 2, stable_count = 1, slide_count = 1,
          frame_idx = 4, cooldown = 0, written = [(1, 1)], reported = []\<rparr> \<and>
   candidate_frame \<lparr>reference_slide = Some (img 1),
          candidate_frame = Some (img 2),
          candidate_frame_color = Some (2::nat), stable_count = 1, slide_count = 1,
          frame_idx = 4, cooldown = 0, written = [(1, 1)], reported = []\<rparr> \<noteq> None \<and>
   cooldown \<lparr>reference_slide = Some (img 1),
          candidate_frame = Some (img 2),
          candidate_frame_color = Some (2::nat), stable_count = 1, slide_count = 1,
          frame_idx = 4, cooldown = 0, written = [(1, 1)], reported = []\<rparr> = 0"
proof -
  have h: "run_loop demo_cv (derive_params (demo_cap [1, 1, 2, 2] 25 4) False None) init_state
     [1, 1, 2, 2] =
     Inr \<lparr>reference_slide = Some (img 1), candidate_frame = Some (img 2),
          candidate_frame_color = Some 2, stable_count = 1, slide_count = 1,
          frame_idx = 4, cooldown = 0, written = [(1, 1)], reported = []\<rparr>"
    by (simp add: demo_simps)
  from candidate_excludes_cooldown[OF h] h show ?thesis by simp
qed

text \<open>
  C10. In every state the loop reaches, a candidate's grayscale form is the grayscale of
  the colour image stored with it, and once a slide has been written the reference slide
  is the grayscale of the colour image written last: the image persisted at a commit and
  the baseline installed by it come from the same frame.
\<close>

theorem reference_matches_written:
  "run_loop C (derive_params cap callback t) init_state fs = Inr s \<Longrightarrow>
   (candidate_frame s \<noteq> None \<longrightarrow>
      candidate_frame s = map_option (cv_cvtColor C) (candidate_frame_color s)) \<and>
   (written s \<noteq> [] \<longrightarrow>
      reference_slide s = Some (cv_cvtColor C (snd (last (written s)))))"
  using reachable_inv[of C cap callback t fs s] by (auto simp: engine_inv_def)

theorem reference_matches_written_witness:
  "run_loop demo_cv (derive_params (demo_cap [1, 1, 2, 2, 2, 2] 5 6) False None) init_state
     [1, 1, 2, 2, 2, 2] =
     Inr \<lparr>reference_slide = Some (img 2), candidate_frame = None,
          candidate_frame_color = Some 2, stable_count = 0, slide_count = 2,
          frame_idx = 6, cooldown = 0, written = [(1, 1), (2, 2)], reported = []\<rparr> \<and>
   Some (img 2) = Some (cv_cvtColor demo_cv (snd (last [(1::int, 1::nat), (2, 2)])))"
proof -
  have h: "run_loop demo_cv (derive_params (demo_cap [1, 1, 2, 2, 2, 2] 5 6) False None) init_state
     [1, 1, 2, 2, 2, 2] =
     Inr \<lparr>reference_slide = Some (img 2), candidate_frame = None,
          candidate_frame_color = Some 2, stable_count = 0, slide_count = 2,
          frame_idx = 6, cooldown = 0, written = [(1, 1), (2, 2)], reported = []\<rparr>"
    by (simp add: demo_simps)
  from reference_matches_written[OF h] h show ?thesis by simp
qed

text \<open>
  C5. When a sampled frame that is blurry arrives in a reachable state outside cooldown,
  the iteration commits nothing (the slide count, the written images and the reference
  slide are unchanged, so the frame is not taken as first slide either) and leaves no
  candidate and a stability count of zero, whatever the similarity primitives would say
  of the frame.
\<close>

theorem blurry_frame_vetoed:
  assumes run: "run_loop C (derive_params cap callback t) init_state fs = Inr s"
    and sampled: "(frame_idx s + 1) mod FRAME_SKIP = 0"
    and cool: "\<not> 0 < cooldown s"
    and blurry: "is_blurry C (cv_cvtColor C frame)"
    and step: "loop_body C (derive_params cap callback t) s frame = Inr s'"
  shows "slide_count s' = slide_count s \<and> written s' = written s \<and>
         reference_slide s' = reference_slide s \<and>
         candidate_frame s' = None \<and> stable_count s' = 0"
proof -
  let ?P = "derive_params cap callback t"
  let ?s = "s\<lparr>frame_idx := frame_idx s + 1\<rparr>"
  have inv: "engine_inv C ?P s" using run by (rule reachable_inv)
  show ?thesis
  proof (cases "reference_slide s = None")
    case True
    with inv have none: "candidate_frame s = None" "stable_count s = 0"
      by (auto simp: engine_inv_def)
    from step sampled True blurry
    obtain s1 where "report ?P ?s (Analyzing (slide_count s)) = Inr s1" "s' = s1"
      by (auto simp: loop_body_first split: sum.splits)
    then obtain r where "s' = ?s\<lparr>reported := r\<rparr>" using report_Inr by blast
    with none show ?thesis by simp
  next
    case False
    from step sampled False cool blurry
    obtain s1 where s1: "report ?P ?s (Analyzing (slide_count s)) = Inr s1"
      "s' = s1\<lparr>stable_count := 0, candidate_frame := None\<rparr>"
      by (auto simp: loop_body_detect detect_def split: sum.splits)
    then obtain r where "s1 = ?s\<lparr>reported := r\<rparr>" using report_Inr by blast
    with s1(2) show ?thesis by simp
  qed
qed

theorem blurry_frame_vetoed_witness:
  "run_loop demo_cv (derive_params (demo_cap [1, 1, 2, 2, 2, 0] 25 8) True None) init_state
     [1, 1, 2, 2, 2] =
     Inr \<lparr>reference_slide = Some (img 1), candidate_frame = Some (img 2),
          candidate_frame_color = Some 2, stable_count = 1, slide_count = 1,
          frame_idx = 5, cooldown = 0, written = [(1, 1)],
          reported = [(25, Analyzing 0), (50, Analyzing 1)]\<rparr> \<and>
   (5 + 1) mod FRAME_SKIP = 0 \<and>
   is_blurry demo_cv (cv_cvtColor demo_cv 0) \<and>
   loop_body demo_cv (derive_params (demo_cap [1, 1, 2, 2, 2, 0] 25 8) True None)
     \<lparr>reference_slide = Some (img 1), candidate_frame = Some (img 2),
      candidate_frame_color = Some 2, stable_count = 1, slide_count = 1,
      frame_idx = 5, cooldown = 0, written = [(1, 1)],
      reported = [(25, Analyzing 0), (50, Analyzing 1)]\<rparr> 0 =
     Inr \<lparr>reference_slide = Some (img 1), candidate_frame = None,
          candidate_frame_color = Some 2, stable_count = 0, slide_count = 1,
          frame_idx = 6, cooldown = 0, written = [(1, 1)],
          reported = [(25, Analyzing 0), (50, Analyzing 1), (75, Analyzing 1)]\<rparr>"
proof -
  let ?P = "derive_params (demo_cap [1, 1, 2, 2, 2, 0] 25 8) True None"
  let ?s = "\<lparr>reference_slide = Some (img 1), candidate_frame = Some (img 2),
      candidate_frame_color = Some (2::nat), stable_count = 1, slide_count = 1,
      frame_idx = 5, cooldown = 0, written = [(1, 1)],
      reported = [(25, Analyzing 0), (50, Analyzing 1)]\<rparr>"
  let ?s' = "\<lparr>reference_slide = Some (img 1), candidate_frame = None,
          candidate_frame_color = Some (2::nat), stable_count = 0, slide_count = 1,
          frame_idx = 6, cooldown = 0, written = [(1, 1)],
          reported = [(25, Analyzing 0), (50, Analyzing 1), (75, Analyzing 1)]\<rparr>"
  have h1: "run_loop demo_cv ?P init_state [1, 1, 2, 2, 2] = Inr ?s"
    by (simp add: demo_simps)
  have h2: "(frame_idx ?s + 1) mod FRAME_SKIP = 0" by (simp add: FRAME_SKIP_def)
  have h3: "\<not> 0 < cooldown ?s" by simp
  have h4: "is_blurry demo_cv (cv_cvtColor demo_cv 0)" by (simp add: demo_simps)
  have h5: "loop_body demo_cv ?P ?s 0 = Inr ?s'" by (simp add: demo_simps)
  from blurry_frame_vetoed[OF h1 h2 h3 h4 h5] h1 h2 h4 h5 show ?thesis by simp
qed

section \<open>Runs over blurry frames before the first slide\<close>

text \<open>
  While no slide has been committed the loop calls no similarity primitive. As long as
  the progress division does not raise (no callback, or a reported frame count that is not
  zero), blurry sampled frames leave the state as it is (\<open>blurry_prefix\<close>), the first
  sharp sampled frame is written as slide 1 and becomes the reference slide
  (\<open>first_sharp_run\<close>), and a source whose sampled frames are all blurry returns with
  slide count 0 (\<open>all_blurry_run\<close>).
\<close>

lemma report_ok:
  "\<not> (progress_callback P \<and> total_frames P = 0) \<Longrightarrow>
   \<exists>r. report P s msg = Inr (s\<lparr>reported := r\<rparr>)"
  by (cases "progress_callback P") (auto simp: report_def intro: exI[of _ "reported s"])

lemma blurry_prefix:
  assumes nocrash: "\<not> (progress_callback P \<and> total_frames P = 0)"
  shows "reference_slide s = None \<Longrightarrow>
     (\<forall>n<length fs. (frame_idx s + int n + 1) mod FRAME_SKIP = 0 \<longrightarrow>
        is_blurry C (cv_cvtColor C (fs ! n))) \<Longrightarrow>
     \<exists>r. run_loop C P s fs = Inr (s\<lparr>frame_idx := frame_idx s + int (length fs), reported := r\<rparr>)"
proof (induction fs arbitrary: s)
  case Nil
  have "run_loop C P s [] = Inr (s\<lparr>frame_idx := frame_idx s + int (length []), reported := reported s\<rparr>)"
    by simp
  then show ?case by (rule exI)
next
  case (Cons f fs)
  let ?s = "s\<lparr>frame_idx := frame_idx s + 1\<rparr>"
  have "\<exists>r0. loop_body C P s f = Inr (?s\<lparr>reported := r0\<rparr>)"
  proof (cases "(frame_idx s + 1) mod FRAME_SKIP = 0")
    case False
    then have "loop_body C P s f = Inr (?s\<lparr>reported := reported s\<rparr>)"
      by (simp add: loop_body_skip)
    then show ?thesis by (rule exI)
  next
    case True
    have "0 < length (f # fs)" by simp
    moreover have "(frame_idx s + int 0 + 1) mod FRAME_SKIP = 0" using True by simp
    ultimately have "is_blurry C (cv_cvtColor C ((f # fs) ! 0))"
      by (rule Cons.prems(2)[rule_format])
    then have bl: "is_blurry C (cv_cvtColor C f)" by simp
    from report_ok[OF nocrash, of ?s "Analyzing (slide_count s)"]
    obtain r0 where r0: "report P ?s (Analyzing (slide_count s)) = Inr (?s\<lparr>reported := r0\<rparr>)"
      by blast
    have "loop_body C P s f = Inr (?s\<lparr>reported := r0\<rparr>)"
      unfolding loop_body_first[OF True Cons.prems(1)] r0 using bl by simp
    then show ?thesis by (rule exI)
  qed
  then obtain r0 where step: "loop_body C P s f = Inr (?s\<lparr>reported := r0\<rparr>)" by blast
  let ?s1 = "?s\<lparr>reported := r0\<rparr>"
  have ref: "reference_slide ?s1 = None" using Cons.prems(1) by simp
  have bl: "\<forall>n<length fs. (frame_idx ?s1 + int n + 1) mod FRAME_SKIP = 0 \<longrightarrow>
        is_blurry C (cv_cvtColor C (fs ! n))"
  proof (intro allI impI)
    fix n assume n: "n < length fs" and m: "(frame_idx ?s1 + int n + 1) mod FRAME_SKIP = 0"
    have eq: "frame_idx ?s1 + int n + 1 = frame_idx s + int (Suc n) + 1" by simp
    from n have "Suc n < length (f # fs)" by simp
    moreover from m have "(frame_idx s + int (Suc n) + 1) mod FRAME_SKIP = 0"
      unfolding eq .
    ultimately have "is_blurry C (cv_cvtColor C ((f # fs) ! Suc n))"
      by (rule Cons.prems(2)[rule_format])
    then show "is_blurry C (cv_cvtColor C (fs ! n))" by simp
  qed
  from Cons.IH[OF ref bl] obtain r where run:
    "run_loop C P ?s1 fs = Inr (?s1\<lparr>frame_idx := frame_idx ?s1 + int (length fs), reported := r\<rparr>)"
    by blast
  have st: "?s1\<lparr>frame_idx := frame_idx ?s1 + int (length fs), reported := r\<rparr> =
      s\<lparr>frame_idx := frame_idx s + int (length (f # fs)), reported := r\<rparr>"
    by simp
  have "run_loop C P s (f # fs) =
      Inr (s\<lparr>frame_idx := frame_idx s + int (length (f # fs)), reported := r\<rparr>)"
    unfolding run_loop.simps step sum.case run st ..
  then show ?case by (rule exI)
qed


lemma derive_params_nocrash:
  "\<not> (callback \<and> py_int (prop_frame_count cap) = 0) \<Longrightarrow>
   \<not> (progress_callback (derive_params cap callback t) \<and>
      total_frames (derive_params cap callback t) = 0)"
  by (simp add: derive_params_def Let_def)

lemma sampled_nth: "sampled fs j = fs ! (2 * j + 1)"
  by (simp add: sampled_def FRAME_SKIP_def)

lemma odd_position:
  assumes "(int n + 1) mod FRAME_SKIP = 0"
  obtains j where "n = 2 * j + 1"
proof -
  from assms have "odd n" by (simp add: FRAME_SKIP_def) presburger
  then obtain j where "n = 2 * j + 1" by (auto elim: oddE)
  then show thesis by (rule that)
qed

lemma run_to_first_sharp:
  assumes nocrash: "\<not> (progress_callback P \<and> total_frames P = 0)"
    and len: "2 * k + 1 < length fs"
    and blurry: "\<forall>j<k. is_blurry C (cv_cvtColor C (fs ! (2 * j + 1)))"
    and sharp: "\<not> is_blurry C (cv_cvtColor C (fs ! (2 * k + 1)))"
  shows "\<exists>r. run_loop C P init_state (take (2 * k + 2) fs) =
     Inr (init_state\<lparr>frame_idx := int (2 * k + 2), reported := r, slide_count := 1,
            written := [(1, fs ! (2 * k + 1))],
            reference_slide := Some (cv_cvtColor C (fs ! (2 * k + 1)))\<rparr>)"
proof -
  let ?pre = "take (2 * k + 1) fs"
  let ?f = "fs ! (2 * k + 1)"
  have lpre: "length ?pre = 2 * k + 1" using len by simp
  have ref0: "reference_slide (init_state :: 'a state) = None" by (simp add: init_state_def)
  have bl: "\<forall>n<length ?pre. (frame_idx (init_state :: 'a state) + int n + 1) mod FRAME_SKIP = 0 \<longrightarrow>
      is_blurry C (cv_cvtColor C (?pre ! n))"
  proof (intro allI impI)
    fix n assume n: "n < length ?pre"
      and m: "(frame_idx (init_state :: 'a state) + int n + 1) mod FRAME_SKIP = 0"
    from m have "(int n + 1) mod FRAME_SKIP = 0" by (simp add: init_state_def)
    then obtain j where j: "n = 2 * j + 1" by (rule odd_position)
    with n lpre have "j < k" by simp
    with blurry have "is_blurry C (cv_cvtColor C (fs ! (2 * j + 1)))" by simp
    with n j show "is_blurry C (cv_cvtColor C (?pre ! n))" by simp
  qed
  from blurry_prefix[OF nocrash ref0 bl] lpre obtain r0 where pre:
    "run_loop C P init_state ?pre =
       Inr (init_state\<lparr>frame_idx := int (2 * k + 1), reported := r0\<rparr>)"
    by (auto simp: init_state_def)
  let ?s1 = "(init_state :: 'a state)\<lparr>frame_idx := int (2 * k + 1), reported := r0\<rparr>"
  let ?s1' = "?s1\<lparr>frame_idx := frame_idx ?s1 + 1\<rparr>"
  have sampled: "(frame_idx ?s1 + 1) mod FRAME_SKIP = 0" by (simp add: FRAME_SKIP_def)
  have ref1: "reference_slide ?s1 = None" by (simp add: init_state_def)
  from report_ok[OF nocrash, of ?s1' "Analyzing (slide_count ?s1)"]
  obtain r1 where r1: "report P ?s1' (Analyzing (slide_count ?s1)) = Inr (?s1'\<lparr>reported := r1\<rparr>)"
    by blast
  have step: "loop_body C P ?s1 ?f =
      Inr (init_state\<lparr>frame_idx := int (2 * k + 2), reported := r1, slide_count := 1,
            written := [(1, ?f)], reference_slide := Some (cv_cvtColor C ?f)\<rparr>)"
    unfolding loop_body_first[OF sampled ref1] r1 using sharp by (simp add: init_state_def)
  have tk: "take (2 * k + 2) fs = ?pre @ [?f]"
    using take_Suc_conv_app_nth[OF len] by simp
  have "run_loop C P init_state (take (2 * k + 2) fs) =
      Inr (init_state\<lparr>frame_idx := int (2 * k + 2), reported := r1, slide_count := 1,
            written := [(1, ?f)], reference_slide := Some (cv_cvtColor C ?f)\<rparr>)"
    by (simp only: tk run_loop_append pre sum.case run_loop.simps step)
  then show ?thesis by (rule exI)
qed

lemma first_sharp_run:
  assumes nocrash: "\<not> (callback \<and> py_int (prop_frame_count cap) = 0)"
    and len: "nat FRAME_SKIP * (k + 1) \<le> length (frames cap)"
    and blurry: "\<forall>j<k. is_blurry C (cv_cvtColor C (sampled (frames cap) j))"
    and sharp: "\<not> is_blurry C (cv_cvtColor C (sampled (frames cap) k))"
  shows "\<exists>s. run_loop C (derive_params cap callback t) init_state
             (take (nat FRAME_SKIP * (k + 1)) (frames cap)) = Inr s \<and>
           slide_count s = 1 \<and> written s = [(1, sampled (frames cap) k)] \<and>
           reference_slide s = Some (cv_cvtColor C (sampled (frames cap) k))"
proof -
  let ?P = "derive_params cap callback t"
  let ?fs = "frames cap"
  let ?f = "?fs ! (2 * k + 1)"
  have m: "nat FRAME_SKIP * (k + 1) = 2 * k + 2" by (simp add: FRAME_SKIP_def)
  from len have len': "2 * k + 1 < length ?fs" unfolding m by simp
  from blurry have bl: "\<forall>j<k. is_blurry C (cv_cvtColor C (?fs ! (2 * j + 1)))"
    by (simp add: sampled_nth)
  from sharp have sh: "\<not> is_blurry C (cv_cvtColor C ?f)" by (simp add: sampled_nth)
  from run_to_first_sharp[OF derive_params_nocrash[OF nocrash] len' bl sh, of t]
  obtain r where pre: "run_loop C ?P init_state (take (2 * k + 2) ?fs) =
     Inr (init_state\<lparr>frame_idx := int (2 * k + 2), reported := r, slide_count := 1,
            written := [(1, ?f)], reference_slide := Some (cv_cvtColor C ?f)\<rparr>)"
    by blast
  show ?thesis unfolding m sampled_nth pre by simp
qed

lemma all_blurry_run:
  assumes opened: "isOpened cap"
    and nocrash: "\<not> (callback \<and> py_int (prop_frame_count cap) = 0)"
    and blurry: "\<forall>j. nat FRAME_SKIP * (j + 1) \<le> length (frames cap) \<longrightarrow>
        is_blurry C (cv_cvtColor C (sampled (frames cap) j))"
  shows "\<exists>out. extract_slides C cap output_dir callback t = Inr out \<and>
           returned out = Success 0 output_dir \<and> imwrites out = []"
proof -
  let ?P = "derive_params cap callback t"
  let ?fs = "frames cap"
  have ref0: "reference_slide (init_state :: 'a state) = None" by (simp add: init_state_def)
  have bl: "\<forall>n<length ?fs. (frame_idx (init_state :: 'a state) + int n + 1) mod FRAME_SKIP = 0 \<longrightarrow>
      is_blurry C (cv_cvtColor C (?fs ! n))"
  proof (intro allI impI)
    fix n assume n: "n < length ?fs"
      and m: "(frame_idx (init_state :: 'a state) + int n + 1) mod FRAME_SKIP = 0"
    from m have "(int n + 1) mod FRAME_SKIP = 0" by (simp add: init_state_def)
    then obtain j where j: "n = 2 * j + 1" by (rule odd_position)
    with n have "nat FRAME_SKIP * (j + 1) \<le> length ?fs" by (simp add: FRAME_SKIP_def)
    with blurry have "is_blurry C (cv_cvtColor C (sampled ?fs j))" by blast
    with j show "is_blurry C (cv_cvtColor C (?fs ! n))" by (simp add: sampled_nth)
  qed
  from blurry_prefix[OF derive_params_nocrash[OF nocrash] ref0 bl, of t] obtain r where
    "run_loop C ?P init_state ?fs =
       Inr (init_state\<lparr>frame_idx := frame_idx (init_state :: 'a state) + int (length ?fs),
         reported := r\<rparr>)"
    by blast
  with opened show ?thesis by (simp add: extract_slides_def init_state_def)
qed

text \<open>
  C6 says that the first sharp sampled frame is committed as slide number 1 whatever
  else holds of the run. On a source of two frames whose second frame, the first sampled
  one, is sharp, and which reports a frame count of zero, with a progress callback
  supplied, the progress percentage is computed before the blur check and its division
  raises: the call ends there and the frame is not committed.
\<close>

theorem first_sharp_frame_raises:
  "\<not> is_blurry demo_cv (cv_cvtColor demo_cv (sampled (frames (demo_cap [9, 3] 25 0)) 0)) \<and>
   extract_slides demo_cv (demo_cap [9, 3] 25 0) ''out'' True None = Inl ZeroDivisionError"
  by (simp add: sampled_def demo_simps)

section \<open>Distance between commits\<close>

lemma detect_bound:
  assumes inv: "engine_inv C P s" and d: "detect C P s g f = Inr s'"
  shows "frame_idx s' = frame_idx s \<and>
     (slide_count s' = slide_count s \<and> stable_count s' \<le> stable_count s + 1 \<and>
        cooldown s' = cooldown s \<and> reference_slide s' = reference_slide s \<or>
      slide_count s' \<noteq> slide_count s \<and> min_stable_frames P \<le> stable_count s + 1 \<and>
        cooldown s' = cooldown_frames P \<and> stable_count s' = 0 \<and> reference_slide s' \<noteq> None)"
proof -
  from inv have st: "0 \<le> stable_count s" by (auto simp: engine_inv_def)
  let ?reset = "s\<lparr>stable_count := 0, candidate_frame := None\<rparr>"
  let ?ad = "adopt s g f"
  let ?ext = "s\<lparr>stable_count := stable_count s + 1\<rparr>"
  from d consider (reset) "s' = ?reset"
    | (keep_ad) "s' = ?ad"
    | (keep_ext) "s' = ?ext"
    | (commit_ad) "min_stable_frames P \<le> 1" "commit P ?ad = Inr s'"
    | (commit_ext) "min_stable_frames P \<le> stable_count s + 1" "commit P ?ext = Inr s'"
    by (auto simp: detect_def Let_def adopt_def split: if_splits option.splits)
  then show ?thesis
  proof cases
    case reset
    with st show ?thesis by simp
  next
    case keep_ad
    with st show ?thesis by (simp add: adopt_def)
  next
    case keep_ext
    then show ?thesis by simp
  next
    case commit_ad
    with st show ?thesis
      by (auto simp: commit_def adopt_def Let_def split: option.splits)
  next
    case commit_ext
    then show ?thesis
      by (auto simp: commit_def Let_def split: option.splits)
  qed
qed

lemma sampled_div:
  "(i + 1) mod FRAME_SKIP = 0 \<Longrightarrow>
   (i + 1) div FRAME_SKIP = i div FRAME_SKIP + 1 \<and> FRAME_SKIP * (i div FRAME_SKIP + 1) = i + 1"
  unfolding FRAME_SKIP_def by presburger

lemma skipped_div:
  "(i + 1) mod FRAME_SKIP \<noteq> 0 \<Longrightarrow> (i + 1) div FRAME_SKIP = i div FRAME_SKIP"
  unfolding FRAME_SKIP_def by presburger

lemma loop_body_earliest:
  assumes cf: "0 \<le> cooldown_frames P" and inv: "engine_inv C P s"
    and ref: "reference_slide s \<noteq> None" and step: "loop_body C P s f = Inr s'"
  shows "reference_slide s' \<noteq> None \<and>
     (slide_count s' = slide_count s \<and> earliest P s \<le> earliest P s' \<or>
      slide_count s' \<noteq> slide_count s \<and> earliest P s \<le> frame_idx s' \<and>
        earliest P s' = frame_idx s' + gap P)"
proof -
  let ?s = "s\<lparr>frame_idx := frame_idx s + 1\<rparr>"
  have FS: "0 < FRAME_SKIP" by (simp add: FRAME_SKIP_def)
  consider (skip) "(frame_idx s + 1) mod FRAME_SKIP \<noteq> 0"
    | (cool) "(frame_idx s + 1) mod FRAME_SKIP = 0" "0 < cooldown s"
    | (det) "(frame_idx s + 1) mod FRAME_SKIP = 0" "\<not> 0 < cooldown s"
    by fastforce
  then show ?thesis
  proof cases
    case skip
    with step have "s' = ?s" by (simp add: loop_body_skip)
    with ref skipped_div[OF skip] show ?thesis by (simp add: earliest_def)
  next
    case cool
    from inv cool(2) have st: "stable_count s = 0" by (auto simp: engine_inv_def)
    from step cool ref obtain r where
      s': "s' = s\<lparr>frame_idx := frame_idx s + 1, cooldown := cooldown s - 1, reported := r\<rparr>"
      using report_Inr[of P "s\<lparr>frame_idx := frame_idx s + 1, cooldown := cooldown s - 1\<rparr>"
          "Stabilizing (slide_count s)" s']
      by (auto simp: loop_body_cooldown)
    from sampled_div[OF cool(1)] have dv: "(frame_idx s + 1) div FRAME_SKIP = frame_idx s div FRAME_SKIP + 1"
      by simp
    have "earliest P s' = earliest P s"
      using cool(2) st by (simp add: s' earliest_def dv)
    with ref s' show ?thesis by simp
  next
    case det
    from inv det(2) have cd: "cooldown s = 0" by (simp add: engine_inv_def)
    from step det ref obtain s1 where s1: "report P ?s (Analyzing (slide_count s)) = Inr s1"
      and d: "detect C P s1 (cv_cvtColor C f) f = Inr s'"
      by (auto simp: loop_body_detect split: sum.splits)
    from s1 obtain r where s1eq: "s1 = ?s\<lparr>reported := r\<rparr>" using report_Inr by blast
    have inv1: "engine_inv C P s1"
      using inv by (simp add: s1eq engine_inv_reported engine_inv_frame_idx)
    from sampled_div[OF det(1)]
    have dv: "(frame_idx s + 1) div FRAME_SKIP = frame_idx s div FRAME_SKIP + 1"
      and ev: "FRAME_SKIP * (frame_idx s div FRAME_SKIP + 1) = frame_idx s + 1"
      by simp_all
    from detect_bound[OF inv1 d] have fi: "frame_idx s' = frame_idx s + 1"
      and alt: "slide_count s' = slide_count s \<and> stable_count s' \<le> stable_count s + 1 \<and>
          cooldown s' = 0 \<and> reference_slide s' = reference_slide s \<or>
        slide_count s' \<noteq> slide_count s \<and> min_stable_frames P \<le> stable_count s + 1 \<and>
          cooldown s' = cooldown_frames P \<and> stable_count s' = 0 \<and> reference_slide s' \<noteq> None"
      by (simp_all add: s1eq cd)
    from alt show ?thesis
    proof
      assume a: "slide_count s' = slide_count s \<and> stable_count s' \<le> stable_count s + 1 \<and>
          cooldown s' = 0 \<and> reference_slide s' = reference_slide s"
      then have "max 1 (min_stable_frames P - stable_count s) \<le>
          1 + max 1 (min_stable_frames P - stable_count s')" by linarith
      then have "earliest P s \<le> earliest P s'"
        using a cd FS by (simp add: earliest_def fi dv)
      with a ref show ?thesis by simp
    next
      assume a: "slide_count s' \<noteq> slide_count s \<and> min_stable_frames P \<le> stable_count s + 1 \<and>
          cooldown s' = cooldown_frames P \<and> stable_count s' = 0 \<and> reference_slide s' \<noteq> None"
      then have m1: "max 1 (min_stable_frames P - stable_count s) = 1" by linarith
      have e1: "earliest P s \<le> frame_idx s'"
        using cd by (simp add: earliest_def m1 fi ev)
      have e2: "earliest P s' = frame_idx s' + gap P"
        using a cf ev by (simp add: earliest_def gap_def fi dv distrib_left)
      from a e1 e2 show ?thesis by simp
    qed
  qed
qed

lemma spaced_ConsI: "spaced d ts \<Longrightarrow> \<forall>u\<in>set ts. t + d \<le> u \<Longrightarrow> spaced d (t # ts)"
  by (cases ts) auto

lemma spaced_tl: "spaced d ts \<Longrightarrow> spaced d (tl ts)"
  by (induction d ts rule: spaced.induct) auto

lemma spaced_nth: "spaced d ts \<Longrightarrow> Suc j < length ts \<Longrightarrow> ts ! j + d \<le> ts ! Suc j"
proof (induction d ts arbitrary: j rule: spaced.induct)
  case (3 d t u ts)
  then show ?case by (cases j) auto
qed auto

lemma gap_nonneg: "0 \<le> cooldown_frames P \<Longrightarrow> 0 \<le> gap P"
  by (simp add: gap_def FRAME_SKIP_def)

lemma commit_steps_tracking:
  assumes cf: "0 \<le> cooldown_frames P"
  shows "engine_inv C P s \<Longrightarrow> reference_slide s \<noteq> None \<Longrightarrow>
     spaced (gap P) (commit_steps C P s fs) \<and>
     (\<forall>t\<in>set (commit_steps C P s fs). earliest P s \<le> t)"
proof (induction fs arbitrary: s)
  case Nil
  then show ?case by simp
next
  case (Cons f fs)
  show ?case
  proof (cases "loop_body C P s f")
    case (Inl e)
    then show ?thesis by simp
  next
    case (Inr s')
    have inv': "engine_inv C P s'" by (rule loop_body_inv[OF cf Cons.prems(1) Inr])
    from loop_body_earliest[OF cf Cons.prems Inr] have ref': "reference_slide s' \<noteq> None"
      and alt: "slide_count s' = slide_count s \<and> earliest P s \<le> earliest P s' \<or>
        slide_count s' \<noteq> slide_count s \<and> earliest P s \<le> frame_idx s' \<and>
          earliest P s' = frame_idx s' + gap P"
      by simp_all
    from Cons.IH[OF inv' ref'] have sp: "spaced (gap P) (commit_steps C P s' fs)"
      and lb: "\<forall>t\<in>set (commit_steps C P s' fs). earliest P s' \<le> t"
      by simp_all
    from alt show ?thesis
    proof
      assume a: "slide_count s' = slide_count s \<and> earliest P s \<le> earliest P s'"
      with Inr have cs: "commit_steps C P s (f # fs) = commit_steps C P s' fs" by simp
      from sp lb a show ?thesis unfolding cs by fastforce
    next
      assume a: "slide_count s' \<noteq> slide_count s \<and> earliest P s \<le> frame_idx s' \<and>
          earliest P s' = frame_idx s' + gap P"
      with Inr have cs: "commit_steps C P s (f # fs) = frame_idx s' # commit_steps C P s' fs"
        by simp
      from lb a have far: "\<forall>u\<in>set (commit_steps C P s' fs). frame_idx s' + gap P \<le> u"
        by simp
      have "spaced (gap P) (frame_idx s' # commit_steps C P s' fs)"
        by (rule spaced_ConsI[OF sp far])
      moreover have "\<forall>u\<in>set (commit_steps C P s' fs). earliest P s \<le> u"
        using far a gap_nonneg[OF cf] by fastforce
      ultimately show ?thesis using a unfolding cs by simp
    qed
  qed
qed

lemma loop_body_awaiting:
  assumes "reference_slide s = None" "loop_body C P s f = Inr s'"
  shows "reference_slide s' = None \<and> slide_count s' = slide_count s \<or> reference_slide s' \<noteq> None"
proof (cases "(frame_idx s + 1) mod FRAME_SKIP = 0")
  case False
  with assms show ?thesis by (auto simp: loop_body_skip)
next
  case True
  let ?s = "s\<lparr>frame_idx := frame_idx s + 1\<rparr>"
  from assms True obtain s1 where s1: "report P ?s (Analyzing (slide_count s)) = Inr s1"
    and s': "s' = s1 \<or> reference_slide s' \<noteq> None"
    by (auto simp: loop_body_first split: sum.splits if_splits)
  from s1 obtain r where "s1 = ?s\<lparr>reported := r\<rparr>" using report_Inr by blast
  with s' assms(1) show ?thesis by auto
qed

lemma commit_steps_awaiting:
  assumes cf: "0 \<le> cooldown_frames P"
  shows "engine_inv C P s \<Longrightarrow> reference_slide s = None \<Longrightarrow>
     spaced (gap P) (tl (commit_steps C P s fs))"
proof (induction fs arbitrary: s)
  case Nil
  then show ?case by simp
next
  case (Cons f fs)
  show ?case
  proof (cases "loop_body C P s f")
    case (Inl e)
    then show ?thesis by simp
  next
    case (Inr s')
    have inv': "engine_inv C P s'" by (rule loop_body_inv[OF cf Cons.prems(1) Inr])
    from loop_body_awaiting[OF Cons.prems(2) Inr] show ?thesis
    proof
      assume a: "reference_slide s' = None \<and> slide_count s' = slide_count s"
      with Inr have cs: "commit_steps C P s (f # fs) = commit_steps C P s' fs" by simp
      from Cons.IH[OF inv'] a show ?thesis unfolding cs by simp
    next
      assume a: "reference_slide s' \<noteq> None"
      from commit_steps_tracking[OF cf inv' a, of fs]
      have sp: "spaced (gap P) (commit_steps C P s' fs)" by simp
      show ?thesis
      proof (cases "slide_count s' \<noteq> slide_count s")
        case True
        with Inr have "commit_steps C P s (f # fs) = frame_idx s' # commit_steps C P s' fs"
          by simp
        with sp show ?thesis by simp
      next
        case False
        with Inr have "commit_steps C P s (f # fs) = commit_steps C P s' fs" by simp
        with spaced_tl[OF sp] show ?thesis by simp
      qed
    qed
  qed
qed

text \<open>
  C3. In every run, any two consecutive commits after the first one (the second and the
  third, the third and the fourth, and so on) are at least
  \<^verbatim>\<open>cooldown_frames + min_stable_frames\<close> sampled frames apart, the distance being the
  difference of their positions in the sequence of sampled frames.
\<close>

theorem commits_spaced:
  assumes ts: "ts = commit_steps C (derive_params cap callback t) init_state fs"
    and i: "1 \<le> i" "i + 1 < length ts"
  shows "cooldown_frames (derive_params cap callback t) +
           min_stable_frames (derive_params cap callback t)
         \<le> (ts ! (i + 1) - ts ! i) div FRAME_SKIP"
proof -
  let ?P = "derive_params cap callback t"
  have cf: "0 \<le> cooldown_frames ?P" by (rule derive_params_cooldown)
  have ref0: "reference_slide (init_state :: 'a state) = None" by (simp add: init_state_def)
  have sp: "spaced (gap ?P) (tl ts)"
    unfolding ts by (rule commit_steps_awaiting[OF cf engine_inv_init ref0])
  from i obtain j where j: "i = Suc j" by (cases i) auto
  with i have "Suc j < length (tl ts)" by simp
  from spaced_nth[OF sp this] i j have "ts ! i + gap ?P \<le> ts ! (i + 1)"
    by (simp add: nth_tl)
  then have "FRAME_SKIP * (cooldown_frames ?P + min_stable_frames ?P) \<le> ts ! (i + 1) - ts ! i"
    by (simp add: gap_def FRAME_SKIP_def max_def split: if_splits)
  then show ?thesis unfolding FRAME_SKIP_def by presburger
qed

theorem commits_spaced_witness:
  "[2, 10, 20] =
     commit_steps demo_cv (derive_params (demo_cap three_slides 10 20) False None) init_state
       three_slides \<and>
   (1::nat) \<le> 1 \<and> 1 + 1 < length [2, 10, 20 :: int] \<and>
   cooldown_frames (derive_params (demo_cap three_slides 10 20) False None) = 1 \<and>
   min_stable_frames (derive_params (demo_cap three_slides 10 20) False None) = 4 \<and>
   (1::int) + 4 \<le> ([2, 10, 20] ! (1 + 1) - [2, 10, 20] ! 1) div FRAME_SKIP"
proof -
  let ?P = "derive_params (demo_cap three_slides 10 20) False None"
  have h: "[2, 10, 20] = commit_steps demo_cv ?P init_state three_slides"
    by (simp add: three_slides_def demo_simps)
  have i1: "(1::nat) \<le> 1" and i2: "1 + 1 < length [2, 10, 20 :: int]" by simp_all
  have c: "cooldown_frames ?P = 1" and m: "min_stable_frames ?P = 4"
    by (simp_all add: demo_simps)
  from commits_spaced[OF h i1 i2] h i1 i2 c m show ?thesis by simp
qed

end
